theory Spec2Isabelle
  imports Complex_Main "HOL-Library.Product_Lexorder" "HOL-Library.Multiset"
begin

section \<open>Times and ranges\<close>

text \<open>
  The program measures time in seconds with Python floats. The embedding uses the reals:
  comparisons, \<open>max\<close>, \<open>min\<close> and the thresholds \<open>0.01\<close>, \<open>0.05\<close>, \<open>0.1\<close>, \<open>0.001\<close> are
  read as exact numbers, so rounding of binary floating point is outside the model.
  A selection is the Python tuple \<open>(start, end)\<close>.
\<close>

type_synonym time_range = "real \<times> real"

section \<open>Selection model (main.py, class MainWindow)\<close>

text \<open>
  The two fields of \<open>MainWindow\<close> the marking operations touch. The playhead time read by
  \<open>_get_current_playhead_time_sec\<close> is an argument of each operation. What an operation
  shows to the user (status bar message, warning box, or nothing) is returned as a
  \<open>feedback\<close> value beside the new state.
\<close>

record main_window =
  selections :: "time_range list"
  current_selection_start :: "real option"

datatype feedback =
    SelectionStartCancelled
  | SelectionStarted real
  | SilentReturn
  | WarningInvalidSelection
  | SegmentSelected real real
  | SelectionRemoved real real
  | AllSelectionsCleared
  | CurrentSelectionStartCancelled
  | NoSelectionsToClear

definition on_begin_selection :: "real \<Rightarrow> main_window \<Rightarrow> feedback \<times> main_window" where
  "on_begin_selection playhead w =
     (if current_selection_start w \<noteq> None
      then (SelectionStartCancelled, w\<lparr>current_selection_start := None\<rparr>)
      else (SelectionStarted playhead, w\<lparr>current_selection_start := Some playhead\<rparr>))"

text \<open>
  \<open>self.selections.sort()\<close> orders the tuples lexicographically (by start, then by end);
  \<open>sort\<close> at type \<open>(real \<times> real) list\<close> is that order.
\<close>

definition on_end_selection :: "real \<Rightarrow> main_window \<Rightarrow> feedback \<times> main_window" where
  "on_end_selection playhead w =
     (case current_selection_start w of
        None \<Rightarrow> (SilentReturn, w)
      | Some start_time \<Rightarrow>
          (let end_time = playhead in
           if end_time \<le> start_time + 1 / 100
           then (WarningInvalidSelection, w)
           else (SegmentSelected start_time end_time,
                 w\<lparr>selections := sort (selections w @ [(start_time, end_time)]),
                   current_selection_start := None\<rparr>)))"

text \<open>
  The \<open>for i, (start, end) in enumerate(self.selections)\<close> loop of \<open>on_undo_selection\<close>,
  which stops at the first range containing the playhead: the scan returns the index and
  the range found, \<open>None\<close> when the loop runs to its end.
\<close>

fun undo_scan :: "real \<Rightarrow> nat \<Rightarrow> time_range list \<Rightarrow> (nat \<times> time_range) option" where
  "undo_scan current_time i [] = None"
| "undo_scan current_time i ((start, end) # rest) =
     (if start \<le> current_time \<and> current_time \<le> end
      then Some (i, (start, end))
      else undo_scan current_time (Suc i) rest)"

text \<open>\<open>del xs[i]\<close> for an index in range.\<close>

definition del_at :: "nat \<Rightarrow> 'a list \<Rightarrow> 'a list" where
  "del_at i xs = take i xs @ drop (Suc i) xs"

definition on_undo_selection :: "real \<Rightarrow> main_window \<Rightarrow> feedback \<times> main_window" where
  "on_undo_selection current_time w =
     (case undo_scan current_time 0 (selections w) of
        Some (i, (start, end)) \<Rightarrow>
          (SelectionRemoved start end, w\<lparr>selections := del_at i (selections w)\<rparr>)
      | None \<Rightarrow>
          (if selections w \<noteq> [] then (AllSelectionsCleared, w\<lparr>selections := []\<rparr>)
           else if current_selection_start w \<noteq> None
           then (CurrentSelectionStartCancelled, w\<lparr>current_selection_start := None\<rparr>)
           else (NoSelectionsToClear, w)))"

text \<open>A session of marking calls, starting from the state of a freshly loaded file.\<close>

datatype mark_call = BeginMark real | EndMark real

definition empty_model :: main_window where
  "empty_model = \<lparr>selections = [], current_selection_start = None\<rparr>"

fun mark_step :: "main_window \<Rightarrow> mark_call \<Rightarrow> main_window" where
  "mark_step w (BeginMark t) = snd (on_begin_selection t w)"
| "mark_step w (EndMark t) = snd (on_end_selection t w)"

definition run_marks :: "mark_call list \<Rightarrow> main_window" where
  "run_marks calls = foldl mark_step empty_model calls"

section \<open>Keep-segments of the remove mode (main.py)\<close>

text \<open>
  One iteration of the loop of \<open>_get_segments_to_keep_for_removal\<close> on the pair
  \<open>(segments_to_keep, current_pos)\<close>.
\<close>

definition removal_step ::
  "real \<Rightarrow> time_range list \<times> real \<Rightarrow> time_range \<Rightarrow> time_range list \<times> real" where
  "removal_step video_duration st r =
     (case (st, r) of ((segments_to_keep, current_pos), (rs, re)) \<Rightarrow>
        (let remove_start = max 0 (min rs video_duration);
             remove_end = max 0 (min re video_duration);
             segments_to_keep' =
               (if remove_start > current_pos
                then (if remove_start - current_pos \<ge> 5 / 100
                      then segments_to_keep @ [(current_pos, remove_start)]
                      else segments_to_keep)
                else segments_to_keep)
         in (segments_to_keep', max current_pos remove_end)))"

text \<open>
  \<open>sorted(self.selections, key=lambda x: x[0])\<close> is a stable sort on the start alone:
  \<open>sort_key fst\<close>.
\<close>

definition get_segments_to_keep_for_removal :: "time_range list \<Rightarrow> real \<Rightarrow> time_range list" where
  "get_segments_to_keep_for_removal sels video_duration =
     (if sels = [] \<or> video_duration \<le> 0
      then (if sels = [] then [] else [(0, video_duration)])
      else
        (case foldl (removal_step video_duration) ([], 0) (sort_key fst sels) of
           (segments_to_keep, current_pos) \<Rightarrow>
             (if current_pos < video_duration
              then (if video_duration - current_pos \<ge> 5 / 100
                    then segments_to_keep @ [(current_pos, video_duration)]
                    else segments_to_keep)
              else segments_to_keep)))"

text \<open>
  The derivation in the words of the specification: walk the sorted ranges with a cursor,
  clamp each range to \<open>[0, duration]\<close>, emit \<open>(cursor, rs)\<close> when \<open>rs > cursor\<close> and the gap
  is at least 0.05, move the cursor to \<open>max cursor re\<close>; after the walk emit the trailing
  segment \<open>(cursor, duration)\<close> under the same length filter.
\<close>

fun complement_walk :: "real \<Rightarrow> real \<Rightarrow> time_range list \<Rightarrow> time_range list" where
  "complement_walk duration cursor [] =
     (if cursor < duration \<and> duration - cursor \<ge> 5 / 100 then [(cursor, duration)] else [])"
| "complement_walk duration cursor ((rs, re) # rest) =
     (let rs' = max 0 (min rs duration); re' = max 0 (min re duration)
      in (if rs' > cursor \<and> rs' - cursor \<ge> 5 / 100 then [(cursor, rs')] else [])
         @ complement_walk duration (max cursor re') rest)"

text \<open>
  The branch \<open>save_action_id == 1\<close> of \<open>on_save_video\<close> up to the value of
  \<open>segments_for_concat\<close>; the message boxes that end the request are the errors.
\<close>

datatype plan_error = NoSelections | NoVideoDuration | NothingToSave | NoTagsSelected


text \<open>
  A list of segments is a chain between \<open>lo\<close> and \<open>hi\<close> when each segment starts no
  earlier than the previous one ends (or than \<open>lo\<close>), lasts at least 0.05 and ends by \<open>hi\<close>.
\<close>

fun keep_chain :: "real \<Rightarrow> real \<Rightarrow> time_range list \<Rightarrow> bool" where
  "keep_chain lo hi [] = True"
| "keep_chain lo hi ((a, b) # rest) =
     (lo \<le> a \<and> a + 5 / 100 \<le> b \<and> b \<le> hi \<and> keep_chain b hi rest)"

text \<open>The test \<open>start <= current_time <= end\<close> of the undo scan.\<close>

definition contains_time :: "time_range \<Rightarrow> real \<Rightarrow> bool" where
  "contains_time r t \<longleftrightarrow> fst r \<le> t \<and> t \<le> snd r"

section \<open>Keyframe tags (ui\_timeline.py, class TimelineWidget)\<close>




section \<open>Output tasks and the split by tags (main.py, on\_save\_video)\<close>

text \<open>
  A task is the dictionary \<open>on_save_video\<close> builds and the worker reads. A key the
  dictionary lacks is \<open>None\<close>.
\<close>

record output_task =
  task_type :: string
  output_path :: string
  output_format_key :: string
  start_time :: "real option"
  end_time :: "real option"
  segments :: "time_range list option"
  gif_scale_w :: "nat option"

text \<open>\<open>str\<close> of a non-negative integer.\<close>

definition digit_char :: "nat \<Rightarrow> char" where
  "digit_char n = ''0123456789'' ! n"

function show_nat :: "nat \<Rightarrow> string" where
  "show_nat n = (if n < 10 then [digit_char n] else show_nat (n div 10) @ [digit_char (n mod 10)])"
  by pat_completeness auto
termination
  by (relation "measure id") auto

declare show_nat.simps [simp del]

text \<open>\<open>os.path.join\<close> with two arguments and \<open>os.path.basename\<close>, as \<open>posixpath\<close> has them.\<close>

definition path_join :: "string \<Rightarrow> string \<Rightarrow> string" where
  "path_join a b =
     (if b \<noteq> [] \<and> hd b = CHR ''/'' then b
      else if a = [] \<or> last a = CHR ''/'' then a @ b
      else a @ ''/'' @ b)"

definition basename :: "string \<Rightarrow> string" where
  "basename p = rev (takeWhile (\<lambda>c. c \<noteq> CHR ''/'') (rev p))"

text \<open>
  What the branch \<open>save_action_id == 3\<close> reads besides the tags and the duration: the chosen
  directory, the base name and extension of the output files, the format key and the
  render hint \<open>gif_scale_w\<close> (already computed from the format and the probed width).
\<close>

record split_request =
  output_dir :: string
  base_output_filename :: string
  default_ext :: string
  format_key :: string
  gif_hint :: "nat option"


definition tag_split_task :: "split_request \<Rightarrow> nat \<Rightarrow> real \<Rightarrow> real \<Rightarrow> output_task" where
  "tag_split_task rq processed_segments_count start_t end_t =
     \<lparr>task_type = ''single_cut'',
      output_path = path_join (output_dir rq)
        (base_output_filename rq @ ''_tag_split_'' @ show_nat processed_segments_count
           @ default_ext rq),
      output_format_key = format_key rq,
      start_time = Some start_t,
      end_time = Some end_t,
      segments = None,
      gif_scale_w = gif_hint rq\<rparr>"





definition sample_request :: split_request where
  "sample_request =
     \<lparr>output_dir = ''/out'', base_output_filename = ''clip'', default_ext = ''.mp4'',
      format_key = ''MP4 (H.264 + AAC)'', gif_hint = None\<rparr>"



section \<open>Progress parsing (ffmpeg\_utils.py)\<close>










text \<open>
  \<open>re.search(FFMPEG_TIME_REGEX, line)\<close> with the pattern
  \<^verbatim>\<open>time=(\d{2}:\d{2}:\d{2}\.\d{2,})\<close>: the leftmost position where the pattern matches, the
  last group of digits as long as it can be; the result is group 1.
\<close>

definition lit :: "string \<Rightarrow> string \<Rightarrow> string option" where
  "lit p s = (if take (length p) s = p then Some (drop (length p) s) else None)"





section \<open>The processing worker (worker\_threads.py, class VideoProcessorWorker)\<close>

text \<open>
  The signals \<open>segment_processed\<close>, \<open>finished\<close> and \<open>error\<close> of the worker, in the order
  of emission. The \<open>progress_update\<close> signals, which depend on the text ffmpeg prints, are
  not part of the model.
\<close>

datatype signal = SegmentProcessed nat nat string | Finished string | Error string

datatype exn = OperationCancelledError string | FfmpegProcessingError string | OtherException string

text \<open>
  What the run meets outside the worker. \<open>cancel()\<close> sets \<open>_is_cancelled\<close> from another
  thread and nothing resets it, so the reads of the flag are false up to some read and
  true from then on: \<open>cancel_at\<close> is the number of the first read, counted from 0, that
  sees it set. \<open>ffmpeg_run n\<close> is the outcome of the \<open>n\<close>-th \<open>FfmpegProcess.run\<close>: \<open>None\<close> for
  \<open>True\<close>, the text of \<open>get_error_message()\<close> for \<open>False\<close>. The file operations of task
  \<open>i\<close> and the final \<open>shutil.rmtree\<close> raise with a message or succeed.
\<close>

record environment =
  cancel_at :: "nat option"
  ffmpeg_run :: "nat \<Rightarrow> string option"
  makedirs_error :: "nat \<Rightarrow> string option"
  list_write_error :: "nat \<Rightarrow> string option"
  rmtree_error :: "string option"
  dir_exists_before :: bool
  base_temp_dir :: string
  pid :: nat

text \<open>
  The variables of \<open>run\<close> and the state around it: the signals emitted, the variable
  \<open>temp_concat_dir\<close>, whether that directory exists on disk, the reads of the flag and
  the ffmpeg runs so far, and the warnings printed by the cleanup.
\<close>

record worker_state =
  signals :: "signal list"
  temp_concat_dir :: "string option"
  temp_dir_exists :: bool
  checks :: nat
  invocations :: nat
  cleanup_warnings :: "string list"

text \<open>The keys of \<open>OUTPUT_FORMATS\<close> (app\_config.py).\<close>

definition output_format_names :: "string list" where
  "output_format_names =
     [''Original Format (Lossless)'', ''MP4 (H.264 + AAC)'', ''MKV (H.264 + AAC)'',
      ''AVI (Xvid + MP3)'', ''MP3 (Audio Only)'', ''GIF (Animated)'']"

text \<open>\<open>str\<close> of a \<open>KeyError\<close>: the key between single quotes.\<close>

definition key_error :: "string \<Rightarrow> string" where
  "key_error k = [CHR 0x27] @ k @ [CHR 0x27]"

definition read_cancelled :: "environment \<Rightarrow> worker_state \<Rightarrow> bool \<times> worker_state" where
  "read_cancelled env st =
     ((case cancel_at env of None \<Rightarrow> False | Some c \<Rightarrow> c \<le> checks st),
      st\<lparr>checks := Suc (checks st)\<rparr>)"

definition run_ffmpeg :: "environment \<Rightarrow> worker_state \<Rightarrow> string option \<times> worker_state" where
  "run_ffmpeg env st = (ffmpeg_run env (invocations st), st\<lparr>invocations := Suc (invocations st)\<rparr>)"

definition emit :: "signal \<Rightarrow> worker_state \<Rightarrow> worker_state" where
  "emit s st = st\<lparr>signals := signals st @ [s]\<rparr>"

text \<open>The loop over the segments of a concat task; \<open>Some\<close> is the exception raised.\<close>

fun cut_segments ::
  "environment \<Rightarrow> nat \<Rightarrow> time_range list \<Rightarrow> worker_state \<Rightarrow> exn option \<times> worker_state" where
  "cut_segments env seg_idx [] st = (None, st)"
| "cut_segments env seg_idx (seg # rest) st =
     (case read_cancelled env st of (cancelled, st1) \<Rightarrow>
        if cancelled
        then (Some (OperationCancelledError ''Cancelled during segment cutting for concat.''), st1)
        else (case run_ffmpeg env st1 of
                (Some err, st2) \<Rightarrow>
                  (Some (FfmpegProcessingError
                           (''Failed to cut segment '' @ show_nat (seg_idx + 1) @ '': '' @ err)),
                   st2)
              | (None, st2) \<Rightarrow> cut_segments env (seg_idx + 1) rest st2))"

text \<open>The body of the loop over the tasks, after the read of the flag.\<close>

definition process_task ::
  "environment \<Rightarrow> nat \<Rightarrow> nat \<Rightarrow> output_task \<Rightarrow> worker_state \<Rightarrow> exn option \<times> worker_state" where
  "process_task env total_tasks i task_info st =
     (if output_format_key task_info \<notin> set output_format_names
      then (Some (OtherException (key_error (output_format_key task_info))), st)
      else if task_type task_info = ''concat'' then
        (case segments task_info of
           None \<Rightarrow> (Some (OtherException (key_error ''segments'')), st)
         | Some segments_to_concat \<Rightarrow>
             (let st1 = st\<lparr>temp_concat_dir :=
                           Some (path_join (base_temp_dir env)
                                   (''lossless_cutter_temp_'' @ show_nat (pid env)))\<rparr>
              in case makedirs_error env i of
                   Some e \<Rightarrow> (Some (OtherException e), st1)
                 | None \<Rightarrow>
                     (case cut_segments env 0 segments_to_concat (st1\<lparr>temp_dir_exists := True\<rparr>) of
                        (Some x, st3) \<Rightarrow> (Some x, st3)
                      | (None, st3) \<Rightarrow>
                          (case list_write_error env i of
                             Some e \<Rightarrow> (Some (OtherException e), st3)
                           | None \<Rightarrow>
                               (case run_ffmpeg env st3 of
                                  (Some err, st4) \<Rightarrow>
                                    (Some (FfmpegProcessingError (''Concatenation failed: '' @ err)),
                                     st4)
                                | (None, st4) \<Rightarrow>
                                    (None,
                                     emit (SegmentProcessed (i + 1) total_tasks
                                             (output_path task_info)) st4))))))
      else
        (case run_ffmpeg env st of
           (Some err, st1) \<Rightarrow>
             (Some (FfmpegProcessingError
                      (''Processing failed for '' @ basename (output_path task_info)
                         @ '': '' @ err)),
              st1)
         | (None, st1) \<Rightarrow>
             (None, emit (SegmentProcessed (i + 1) total_tasks (output_path task_info)) st1)))"

text \<open>
  The loop \<open>for i, task_info in enumerate(self.output_tasks)\<close>: it runs to its end, or
  returns after the \<open>finished\<close> signal of a cancellation, or an exception leaves it.
\<close>

datatype loop_exit = LoopDone | Returned | Raised exn

fun task_loop ::
  "environment \<Rightarrow> nat \<Rightarrow> nat \<Rightarrow> output_task list \<Rightarrow> worker_state \<Rightarrow> loop_exit \<times> worker_state" where
  "task_loop env total_tasks i [] st = (LoopDone, st)"
| "task_loop env total_tasks i (task_info # rest) st =
     (case read_cancelled env st of (cancelled, st1) \<Rightarrow>
        if cancelled then (Returned, emit (Finished ''Operation cancelled.'') st1)
        else (case process_task env total_tasks i task_info st1 of
                (Some x, st2) \<Rightarrow> (Raised x, st2)
              | (None, st2) \<Rightarrow> task_loop env total_tasks (i + 1) rest st2))"

text \<open>The \<open>finished\<close> message after the loop.\<close>

definition completion_message :: "output_task list \<Rightarrow> string" where
  "completion_message output_tasks =
     (let total_tasks = length output_tasks in
      if total_tasks = 1 \<and> task_type (output_tasks ! 0) \<noteq> ''concat''
      then output_path (output_tasks ! 0)
      else if total_tasks > 0 \<and> task_type (output_tasks ! 0) = ''concat''
      then output_path (output_tasks ! 0)
      else ''Successfully processed '' @ show_nat total_tasks @ '' segment(s).'')"

text \<open>The end of the \<open>try\<close> block and its \<open>except\<close> clauses.\<close>

definition handle_exit :: "loop_exit \<Rightarrow> output_task list \<Rightarrow> worker_state \<Rightarrow> worker_state" where
  "handle_exit ex output_tasks st =
     (case ex of
        LoopDone \<Rightarrow> emit (Finished (completion_message output_tasks)) st
      | Returned \<Rightarrow> st
      | Raised (OperationCancelledError m) \<Rightarrow>
          emit (Error (if m \<noteq> [] then m else ''Operation cancelled.'')) st
      | Raised (FfmpegProcessingError m) \<Rightarrow> emit (Error m) st
      | Raised (OtherException m) \<Rightarrow>
          emit (Error (''An unexpected error occurred in processing: '' @ m)) st)"

text \<open>The \<open>finally\<close> clause.\<close>

definition cleanup :: "environment \<Rightarrow> worker_state \<Rightarrow> worker_state" where
  "cleanup env st =
     (case temp_concat_dir st of
        None \<Rightarrow> st
      | Some dir \<Rightarrow>
          if dir \<noteq> [] \<and> temp_dir_exists st then
            (case rmtree_error env of
               None \<Rightarrow> st\<lparr>temp_dir_exists := False\<rparr>
             | Some e_rm \<Rightarrow>
                 st\<lparr>cleanup_warnings := cleanup_warnings st
                      @ [''Warning: Could not remove temp directory '' @ dir @ '': '' @ e_rm]\<rparr>)
          else st)"

definition initial_state :: "environment \<Rightarrow> worker_state" where
  "initial_state env =
     \<lparr>signals = [], temp_concat_dir = None, temp_dir_exists = dir_exists_before env,
      checks = 0, invocations = 0, cleanup_warnings = []\<rparr>"

definition run :: "environment \<Rightarrow> output_task list \<Rightarrow> worker_state" where
  "run env output_tasks =
     (case task_loop env (length output_tasks) 0 output_tasks (initial_state env) of
        (ex, st) \<Rightarrow> cleanup env (handle_exit ex output_tasks st))"

text \<open>The reads of the flag a task makes when nothing fails.\<close>

definition checks_of_task :: "output_task \<Rightarrow> nat" where
  "checks_of_task t =
     Suc (if task_type t = ''concat''
          then (case segments t of None \<Rightarrow> 0 | Some segs \<Rightarrow> length segs)
          else 0)"

definition well_formed_task :: "output_task \<Rightarrow> bool" where
  "well_formed_task t \<longleftrightarrow>
     output_format_key t \<in> set output_format_names \<and>
     (task_type t = ''concat'' \<longrightarrow> segments t \<noteq> None)"

text \<open>Sample runs: five single cuts, one concat task, an environment in which nothing fails.\<close>

definition calm_env :: "nat option \<Rightarrow> environment" where
  "calm_env c =
     \<lparr>cancel_at = c, ffmpeg_run = (\<lambda>n. None), makedirs_error = (\<lambda>i. None),
      list_write_error = (\<lambda>i. None), rmtree_error = None, dir_exists_before = False,
      base_temp_dir = ''/tmp'', pid = 4242\<rparr>"

definition five_tasks :: "output_task list" where
  "five_tasks =
     [tag_split_task sample_request 1 0 2, tag_split_task sample_request 2 2 4,
      tag_split_task sample_request 3 4 6, tag_split_task sample_request 4 6 8,
      tag_split_task sample_request 5 8 10]"

definition concat_task :: output_task where
  "concat_task =
     \<lparr>task_type = ''concat'', output_path = ''/out/clip_cleaned.mp4'',
      output_format_key = ''MP4 (H.264 + AAC)'', start_time = None, end_time = None,
      segments = Some [(0, 2), (8, 10)], gif_scale_w = None\<rparr>"

text \<open>
  The state of the temporary directory before the cleanup: while \<open>temp_concat_dir\<close> is
  unset the disk is as it was before the run, a path once set is not empty, and no
  warning has been printed.
\<close>

definition tidy :: "environment \<Rightarrow> worker_state \<Rightarrow> bool" where
  "tidy env st \<longleftrightarrow>
     (temp_concat_dir st = None \<longrightarrow> temp_dir_exists st = dir_exists_before env) \<and>
     (\<forall>d. temp_concat_dir st = Some d \<longrightarrow> d \<noteq> []) \<and>
     cleanup_warnings st = []"

section \<open>Properties of the selection model\<close>

lemma undo_scan_None:
  "undo_scan t i xs = None \<longleftrightarrow> (\<forall>(s, e) \<in> set xs. \<not> (s \<le> t \<and> t \<le> e))"
  by (induction t i xs rule: undo_scan.induct) auto

lemma undo_scan_Some:
  "undo_scan t i xs = Some (j, r) \<Longrightarrow>
     i \<le> j \<and> j - i < length xs \<and> xs ! (j - i) = r \<and> fst r \<le> t \<and> t \<le> snd r \<and>
     (\<forall>k < j - i. \<not> (fst (xs ! k) \<le> t \<and> t \<le> snd (xs ! k)))"
proof (induction t i xs rule: undo_scan.induct)
  case (1 t i)
  then show ?case by simp
next
  case (2 t i s e rest)
  show ?case
  proof (cases "s \<le> t \<and> t \<le> e")
    case True
    with 2 show ?thesis by auto
  next
    case False
    with 2 have rec: "undo_scan t (Suc i) rest = Some (j, r)" by simp
    from 2(1)[OF False rec] have ih:
      "Suc i \<le> j" "j - Suc i < length rest" "rest ! (j - Suc i) = r" "fst r \<le> t" "t \<le> snd r"
      "\<forall>k < j - Suc i. \<not> (fst (rest ! k) \<le> t \<and> t \<le> snd (rest ! k))"
      by auto
    from ih(1) have ji: "j - i = Suc (j - Suc i)" by simp
    have "\<forall>k < j - i. \<not> (fst (((s, e) # rest) ! k) \<le> t \<and> t \<le> snd (((s, e) # rest) ! k))"
    proof (intro allI impI)
      fix k assume "k < j - i"
      then show "\<not> (fst (((s, e) # rest) ! k) \<le> t \<and> t \<le> snd (((s, e) # rest) ! k))"
        using False ih(6) ji by (cases k) auto
    qed
    with ih ji show ?thesis by simp
  qed
qed

lemma sorted_lex_fst: "sorted (xs :: time_range list) \<Longrightarrow> sorted (map fst xs)"
  by (induction xs) (auto simp: less_eq_prod_def)

lemma undo_scan_first:
  assumes "i < length xs" "fst (xs ! i) \<le> t \<and> t \<le> snd (xs ! i)"
    and "\<forall>k < i. \<not> (fst (xs ! k) \<le> t \<and> t \<le> snd (xs ! k))"
  shows "undo_scan t 0 xs = Some (i, xs ! i)"
proof (cases "undo_scan t 0 xs")
  case None
  then have "\<forall>(s, e) \<in> set xs. \<not> (s \<le> t \<and> t \<le> e)" by (simp add: undo_scan_None)
  moreover have "xs ! i \<in> set xs" using assms(1) by simp
  ultimately show ?thesis using assms(2) by (cases "xs ! i") auto
next
  case (Some p)
  obtain j r where p: "p = (j, r)" by (cases p)
  from undo_scan_Some[OF Some[unfolded p]]
  have j: "j < length xs" "xs ! j = r" "fst r \<le> t" "t \<le> snd r"
    "\<forall>k < j. \<not> (fst (xs ! k) \<le> t \<and> t \<le> snd (xs ! k))" by auto
  have "\<not> j < i" using assms(3) j by blast
  moreover have "\<not> i < j" using assms(2) j(5) by blast
  ultimately have "j = i" by simp
  with Some p j show ?thesis by simp
qed



text \<open>
  Claim C5. \<open>on_undo_selection\<close> deletes the first range of the list, in list order, that
  contains the playhead, and keeps every other range in place; when no range contains it,
  a non-empty list is cleared, else a pending start is cleared, else nothing changes.
\<close>

theorem on_undo_selection_contract:
  "(\<forall>i. i < length (selections w) \<and> contains_time (selections w ! i) t \<and>
        (\<forall>k < i. \<not> contains_time (selections w ! k) t) \<longrightarrow>
        on_undo_selection t w =
          (SelectionRemoved (fst (selections w ! i)) (snd (selections w ! i)),
           w\<lparr>selections := take i (selections w) @ drop (Suc i) (selections w)\<rparr>)) \<and>
   ((\<forall>r \<in> set (selections w). \<not> contains_time r t) \<longrightarrow>
      on_undo_selection t w =
        (if selections w \<noteq> [] then (AllSelectionsCleared, w\<lparr>selections := []\<rparr>)
         else if current_selection_start w \<noteq> None
         then (CurrentSelectionStartCancelled, w\<lparr>current_selection_start := None\<rparr>)
         else (NoSelectionsToClear, w)))"
proof (intro conjI allI impI)
  fix i
  assume a: "i < length (selections w) \<and> contains_time (selections w ! i) t \<and>
        (\<forall>k < i. \<not> contains_time (selections w ! k) t)"
  then have "undo_scan t 0 (selections w) = Some (i, selections w ! i)"
    by (intro undo_scan_first) (auto simp: contains_time_def)
  then show "on_undo_selection t w =
          (SelectionRemoved (fst (selections w ! i)) (snd (selections w ! i)),
           w\<lparr>selections := take i (selections w) @ drop (Suc i) (selections w)\<rparr>)"
    by (simp add: on_undo_selection_def del_at_def split: prod.splits)
next
  assume "\<forall>r \<in> set (selections w). \<not> contains_time r t"
  then have "undo_scan t 0 (selections w) = None"
    by (auto simp: undo_scan_None contains_time_def)
  then show "on_undo_selection t w =
        (if selections w \<noteq> [] then (AllSelectionsCleared, w\<lparr>selections := []\<rparr>)
         else if current_selection_start w \<noteq> None
         then (CurrentSelectionStartCancelled, w\<lparr>current_selection_start := None\<rparr>)
         else (NoSelectionsToClear, w))"
    by (simp add: on_undo_selection_def)
qed

theorem on_undo_selection_contract_witness:
  "on_undo_selection 4.5 \<lparr>selections = [(0, 1), (2, 5), (4, 8)], current_selection_start = Some 9\<rparr>
     = (SelectionRemoved 2 5,
        \<lparr>selections = [(0, 1), (4, 8)], current_selection_start = Some 9\<rparr>) \<and>
   on_undo_selection 9 \<lparr>selections = [(0, 1), (2, 5)], current_selection_start = Some 9\<rparr>
     = (AllSelectionsCleared, \<lparr>selections = [], current_selection_start = Some 9\<rparr>) \<and>
   on_undo_selection 9 \<lparr>selections = [], current_selection_start = Some 9\<rparr>
     = (CurrentSelectionStartCancelled, \<lparr>selections = [], current_selection_start = None\<rparr>) \<and>
   on_undo_selection 9 \<lparr>selections = [], current_selection_start = None\<rparr>
     = (NoSelectionsToClear, \<lparr>selections = [], current_selection_start = None\<rparr>)"
proof -
  let ?w = "\<lparr>selections = [(0, 1), (2, 5), (4, 8)], current_selection_start = Some (9::real)\<rparr>"
  have h: "Suc 0 < length (selections ?w) \<and> contains_time (selections ?w ! Suc 0) 4.5 \<and>
        (\<forall>k < Suc 0. \<not> contains_time (selections ?w ! k) 4.5)"
    by (simp add: contains_time_def)
  from on_undo_selection_contract [of ?w "4.5"] h
  have "on_undo_selection 4.5 ?w =
          (SelectionRemoved (fst (selections ?w ! Suc 0)) (snd (selections ?w ! Suc 0)),
           ?w\<lparr>selections := take (Suc 0) (selections ?w) @ drop (Suc (Suc 0)) (selections ?w)\<rparr>)"
    by blast
  then have a: "on_undo_selection 4.5 ?w = (SelectionRemoved 2 5,
        \<lparr>selections = [(0, 1), (4, 8)], current_selection_start = Some 9\<rparr>)"
    by simp
  show ?thesis
    using a
      on_undo_selection_contract [of "\<lparr>selections = [(0, 1), (2, 5)], current_selection_start = Some 9\<rparr>" 9]
      on_undo_selection_contract [of "\<lparr>selections = [], current_selection_start = Some 9\<rparr>" 9]
      on_undo_selection_contract [of "\<lparr>selections = [], current_selection_start = None\<rparr>" 9]
    by (simp add: contains_time_def)
qed

lemma run_marks_snoc: "run_marks (calls @ [c]) = mark_step (run_marks calls) c"
  by (simp add: run_marks_def)

lemma mark_step_inv:
  assumes "sorted (map fst (selections w)) \<and> (\<forall>(s, e) \<in> set (selections w). s < e)"
  shows "sorted (map fst (selections (mark_step w c))) \<and>
         (\<forall>(s, e) \<in> set (selections (mark_step w c)). s < e)"
proof (cases c)
  case (BeginMark t)
  with assms show ?thesis by (simp add: on_begin_selection_def)
next
  case (EndMark t)
  with assms show ?thesis
    by (auto simp: on_end_selection_def Let_def sorted_lex_fst split: option.splits)
qed

text \<open>
  Claim C6. After any sequence of begin and end marks from the empty model, hence after
  each successful end mark, the selections are in ascending order of start and every
  range ends after it starts.
\<close>

theorem selections_sorted_after_marks:
  "sorted (map fst (selections (run_marks calls))) \<and>
   (\<forall>(s, e) \<in> set (selections (run_marks calls)). s < e)"
proof (induction calls rule: rev_induct)
  case Nil
  show ?case by (simp add: run_marks_def empty_model_def)
next
  case (snoc c calls)
  then show ?case unfolding run_marks_snoc by (rule mark_step_inv)
qed


theorem selections_sorted_after_marks_witness:
  "selections (run_marks [BeginMark 4, EndMark 8, BeginMark 2, EndMark 5]) = [(2, 5), (4, 8)] \<and>
   sorted (map fst (selections (run_marks [BeginMark 4, EndMark 8, BeginMark 2, EndMark 5]))) \<and>
   list_all (\<lambda>(s, e). s < e)
     (selections (run_marks [BeginMark 4, EndMark 8, BeginMark 2, EndMark 5]))"
  using selections_sorted_after_marks [of "[BeginMark 4, EndMark 8, BeginMark 2, EndMark 5]"]
  by (simp add: run_marks_def empty_model_def on_begin_selection_def on_end_selection_def)

section \<open>Properties of the keep-segments\<close>

lemma foldl_removal_step:
  "(case foldl (removal_step d) (segs, c) xs of
      (segments_to_keep, current_pos) \<Rightarrow>
        (if current_pos < d
         then (if d - current_pos \<ge> 5 / 100
               then segments_to_keep @ [(current_pos, d)]
               else segments_to_keep)
         else segments_to_keep))
   = segs @ complement_walk d c xs"
proof (induction xs arbitrary: segs c)
  case Nil
  show ?case by simp
next
  case (Cons x xs)
  obtain rs re where x: "x = (rs, re)" by (cases x)
  show ?case unfolding x foldl_Cons
    by (simp add: removal_step_def Let_def Cons.IH)
qed

lemma get_segments_walk:
  "sels \<noteq> [] \<Longrightarrow> 0 < d \<Longrightarrow>
   get_segments_to_keep_for_removal sels d = complement_walk d 0 (sort_key fst sels)"
  using foldl_removal_step [of d "[]" 0 "sort_key fst sels"]
  by (simp add: get_segments_to_keep_for_removal_def)





lemma keep_chain_mono: "keep_chain lo hi segs \<Longrightarrow> lo' \<le> lo \<Longrightarrow> keep_chain lo' hi segs"
  by (cases segs) auto

lemma walk_keep_chain:
  assumes "\<forall>r \<in> set xs. fst r \<le> snd r" "0 \<le> c" "0 \<le> d"
  shows "keep_chain c d (complement_walk d c xs)"
  using assms
proof (induction xs arbitrary: c)
  case Nil
  then show ?case by simp
next
  case (Cons x xs)
  obtain rs re where x: "x = (rs, re)" by (cases x)
  define rs' where "rs' = max 0 (min rs d)"
  define re' where "re' = max 0 (min re d)"
  have le: "rs' \<le> re'"
    using Cons.prems(1) x unfolding rs'_def re'_def by (auto simp: max_def min_def)
  have bound: "rs' \<le> d" using Cons.prems(3) unfolding rs'_def by simp
  have p: "\<forall>r \<in> set xs. fst r \<le> snd r" using Cons.prems(1) by simp
  have c': "0 \<le> max c re'" using Cons.prems(2) by linarith
  have ih: "keep_chain (max c re') d (complement_walk d (max c re') xs)"
    by (rule Cons.IH [OF p c' Cons.prems(3)])
  have "rs' \<le> max c re'" using le by linarith
  then have k1: "keep_chain rs' d (complement_walk d (max c re') xs)"
    by (rule keep_chain_mono [OF ih])
  have "c \<le> max c re'" by linarith
  then have k2: "keep_chain c d (complement_walk d (max c re') xs)"
    by (rule keep_chain_mono [OF ih])
  have "complement_walk d c ((rs, re) # xs) =
          (if rs' > c \<and> rs' - c \<ge> 5 / 100 then [(c, rs')] else [])
          @ complement_walk d (max c re') xs"
    unfolding rs'_def re'_def by (simp add: Let_def)
  then show ?case unfolding x using k1 k2 bound by simp
qed

lemma keep_chain_bounds:
  "keep_chain lo hi segs \<Longrightarrow> (a, b) \<in> set segs \<Longrightarrow> lo \<le> a \<and> a + 5 / 100 \<le> b \<and> b \<le> hi"
proof (induction lo hi segs rule: keep_chain.induct)
  case (1 lo hi)
  then show ?case by simp
next
  case (2 lo hi a' b' rest)
  from "2.prems"(1) have h: "lo \<le> a'" "a' + 5 / 100 \<le> b'" "b' \<le> hi" "keep_chain b' hi rest"
    by simp_all
  show ?case
  proof (cases "(a, b) = (a', b')")
    case True
    with h show ?thesis by simp
  next
    case False
    with "2.prems"(2) have "(a, b) \<in> set rest" by auto
    from "2.IH" [OF h(4) this] h show ?thesis by simp
  qed
qed

lemma keep_chain_sorted:
  "keep_chain lo hi segs \<Longrightarrow> sorted_wrt (\<lambda>p q. snd p \<le> fst q) segs"
proof (induction lo hi segs rule: keep_chain.induct)
  case (1 lo hi)
  then show ?case by simp
next
  case (2 lo hi a b rest)
  from "2.prems" have h: "keep_chain b hi rest" by simp
  have "\<forall>q \<in> set rest. b \<le> fst q"
  proof
    fix q assume "q \<in> set rest"
    then have "(fst q, snd q) \<in> set rest" by simp
    from keep_chain_bounds [OF h this] show "b \<le> fst q" by simp
  qed
  with "2.IH" [OF h] show ?case by simp
qed

lemma keep_chain_strict:
  "keep_chain lo hi segs \<Longrightarrow> sorted_wrt (\<lambda>p q. fst p < fst q) segs"
proof (induction lo hi segs rule: keep_chain.induct)
  case (1 lo hi)
  then show ?case by simp
next
  case (2 lo hi a b rest)
  from "2.prems" have h: "keep_chain b hi rest" and ab: "a + 5 / 100 \<le> b" by simp_all
  have "\<forall>q \<in> set rest. a < fst q"
  proof
    fix q assume "q \<in> set rest"
    then have "(fst q, snd q) \<in> set rest" by simp
    from keep_chain_bounds [OF h this] ab show "a < fst q" by simp
  qed
  with "2.IH" [OF h] show ?case by simp
qed

lemma get_segments_chain:
  assumes "\<forall>(s, e) \<in> set sels. s < e" "0 < d"
  shows "keep_chain 0 d (get_segments_to_keep_for_removal sels d)"
proof (cases "sels = []")
  case True
  then show ?thesis by (simp add: get_segments_to_keep_for_removal_def)
next
  case False
  have "\<forall>r \<in> set (sort_key fst sels). fst r \<le> snd r" using assms(1) by (auto simp: less_imp_le)
  then have "keep_chain 0 d (complement_walk d 0 (sort_key fst sels))"
    by (rule walk_keep_chain) (use assms(2) in simp_all)
  then show ?thesis using False assms(2) by (simp add: get_segments_walk)
qed



text \<open>
  Claim C10. For ranges with start before end, overlapping or unsorted as they may be, and
  a positive duration, the keep-segments are strictly ascending by start, pairwise
  disjoint (each ends no later than the next starts), lie within \<open>[0, duration]\<close> and
  last at least 0.05.
\<close>

theorem keep_segments_invariants:
  assumes "\<forall>(s, e) \<in> set sels. s < e" and "0 < d"
  shows "sorted_wrt (\<lambda>p q. fst p < fst q) (get_segments_to_keep_for_removal sels d) \<and>
         sorted_wrt (\<lambda>p q. snd p \<le> fst q) (get_segments_to_keep_for_removal sels d) \<and>
         (\<forall>(a, b) \<in> set (get_segments_to_keep_for_removal sels d).
             0 \<le> a \<and> b \<le> d \<and> b - a \<ge> 5 / 100)"
proof -
  note ch = get_segments_chain [OF assms]
  have "\<forall>(a, b) \<in> set (get_segments_to_keep_for_removal sels d).
             0 \<le> a \<and> b \<le> d \<and> b - a \<ge> 5 / 100"
  proof (clarify)
    fix a b assume "(a, b) \<in> set (get_segments_to_keep_for_removal sels d)"
    from keep_chain_bounds [OF ch this] show "0 \<le> a \<and> b \<le> d \<and> b - a \<ge> 5 / 100" by simp
  qed
  with keep_chain_sorted [OF ch] keep_chain_strict [OF ch] show ?thesis by blast
qed


theorem keep_segments_invariants_witness:
  "list_all (\<lambda>(s, e). s < e) [(6 :: real, 9 :: real), (2, 5), (4, 7)] \<and> (0 :: real) < 10 \<and>
   get_segments_to_keep_for_removal [(6, 9), (2, 5), (4, 7)] 10 = [(0, 2), (9, 10)] \<and>
   sorted_wrt (\<lambda>p q. snd p \<le> fst q) (get_segments_to_keep_for_removal [(6, 9), (2, 5), (4, 7)] 10)"
proof -
  have h: "\<forall>(s, e) \<in> set [(6 :: real, 9 :: real), (2, 5), (4, 7)]. s < e" by simp
  have p: "(0 :: real) < 10" by simp
  have v: "get_segments_to_keep_for_removal [(6, 9), (2, 5), (4, 7)] 10 = [(0, 2), (9, 10)]"
    by (simp add: get_segments_to_keep_for_removal_def removal_step_def)
  show ?thesis using keep_segments_invariants [OF h p] h v by simp
qed

section \<open>Properties of the keyframe tags\<close>




section \<open>Properties of the split by tags\<close>













section \<open>Properties of the progress parser\<close>

lemma lit_Some: "lit p s = Some r \<Longrightarrow> s = p @ r"
  by (auto simp: lit_def split: if_splits) (metis append_take_drop_id)












section \<open>Properties of the processing worker\<close>

lemma path_join_nonempty: "b \<noteq> [] \<Longrightarrow> path_join a b \<noteq> []"
  by (simp add: path_join_def)

lemma tidy_read_cancelled: "tidy env st \<Longrightarrow> tidy env (snd (read_cancelled env st))"
  by (simp add: tidy_def read_cancelled_def)

lemma tidy_run_ffmpeg: "tidy env st \<Longrightarrow> tidy env (snd (run_ffmpeg env st))"
  by (simp add: tidy_def run_ffmpeg_def)

lemma tidy_emit: "tidy env st \<Longrightarrow> tidy env (emit s st)"
  by (simp add: tidy_def emit_def)

lemma tidy_cut_segments:
  "tidy env st \<Longrightarrow> tidy env (snd (cut_segments env n segs st))"
proof (induction segs arbitrary: n st)
  case Nil
  then show ?case by simp
next
  case (Cons seg rest)
  obtain c st1 where r: "read_cancelled env st = (c, st1)" by (cases "read_cancelled env st")
  have t1: "tidy env st1" using tidy_read_cancelled [OF Cons.prems] r by simp
  obtain o2 st2 where f: "run_ffmpeg env st1 = (o2, st2)" by (cases "run_ffmpeg env st1")
  have t2: "tidy env st2" using tidy_run_ffmpeg [OF t1] f by simp
  show ?case
    using t1 t2 Cons.IH [OF t2] by (simp add: r f split: option.splits)
qed

lemma tidy_set_dir:
  assumes "tidy env st" "p \<noteq> []"
  shows "tidy env (st\<lparr>temp_concat_dir := Some p\<rparr>)"
    and "tidy env (st\<lparr>temp_concat_dir := Some p, temp_dir_exists := True\<rparr>)"
  using assms by (simp_all add: tidy_def)

lemma tidy_process_task:
  assumes "tidy env st"
  shows "tidy env (snd (process_task env total_tasks i t st))"
proof -
  let ?p = "path_join (base_temp_dir env) (''lossless_cutter_temp_'' @ show_nat (pid env))"
  have pn: "?p \<noteq> []" by (rule path_join_nonempty) simp
  note d = tidy_set_dir [OF assms pn]
  show ?thesis
  proof (cases "output_format_key t \<notin> set output_format_names")
    case True
    then show ?thesis using assms by (simp add: process_task_def)
  next
    case known: False
    show ?thesis
    proof (cases "task_type t = ''concat''")
      case False
      obtain o1 st1 where f: "run_ffmpeg env st = (o1, st1)" by (cases "run_ffmpeg env st")
      have "tidy env st1" using tidy_run_ffmpeg [OF assms] f by simp
      then show ?thesis
        using known False f by (simp add: process_task_def tidy_emit split: option.splits)
    next
      case True
      show ?thesis
      proof (cases "segments t")
        case None
        then show ?thesis using known True assms by (simp add: process_task_def)
      next
        case (Some segs)
        show ?thesis
        proof (cases "makedirs_error env i")
          case (Some e)
          then show ?thesis
            using known True \<open>segments t = Some segs\<close> d(1)
            by (simp add: process_task_def Let_def)
        next
          case None
          obtain x st3 where c: "cut_segments env 0 segs
              (st\<lparr>temp_concat_dir := Some ?p, temp_dir_exists := True\<rparr>) = (x, st3)"
            by (cases "cut_segments env 0 segs
                (st\<lparr>temp_concat_dir := Some ?p, temp_dir_exists := True\<rparr>)")
          have t3: "tidy env st3" using tidy_cut_segments [OF d(2), of 0 segs] c by simp
          obtain o4 st4 where f: "run_ffmpeg env st3 = (o4, st4)" by (cases "run_ffmpeg env st3")
          have t4: "tidy env st4" using tidy_run_ffmpeg [OF t3] f by simp
          show ?thesis
            using known True \<open>segments t = Some segs\<close> None c f t3 t4
            by (simp add: process_task_def Let_def tidy_emit split: option.splits)
        qed
      qed
    qed
  qed
qed

lemma tidy_task_loop:
  "tidy env st \<Longrightarrow> tidy env (snd (task_loop env total_tasks i ts st))"
proof (induction ts arbitrary: i st)
  case Nil
  then show ?case by simp
next
  case (Cons t rest)
  obtain c st1 where r: "read_cancelled env st = (c, st1)" by (cases "read_cancelled env st")
  have t1: "tidy env st1" using tidy_read_cancelled [OF Cons.prems] r by simp
  obtain x st2 where p: "process_task env total_tasks i t st1 = (x, st2)"
    by (cases "process_task env total_tasks i t st1")
  have t2: "tidy env st2" using tidy_process_task [OF t1, of total_tasks i t] p by simp
  show ?case
    using t1 t2 Cons.IH [OF t2] by (simp add: r p tidy_emit split: option.splits)
qed

lemma tidy_handle_exit: "tidy env st \<Longrightarrow> tidy env (handle_exit ex ts st)"
  by (cases ex) (auto simp: handle_exit_def tidy_emit split: exn.splits)

lemma tidy_initial: "tidy env (initial_state env)"
  by (simp add: tidy_def initial_state_def)

lemma run_cleanup:
  "\<exists>st. tidy env st \<and> run env ts = cleanup env st \<and>
        st = handle_exit (fst (task_loop env (length ts) 0 ts (initial_state env))) ts
               (snd (task_loop env (length ts) 0 ts (initial_state env)))"
  using tidy_handle_exit [OF tidy_task_loop [OF tidy_initial]]
  by (simp add: run_def split: prod.splits)

text \<open>Nothing before the cleanup reads \<open>rmtree_error\<close>.\<close>

lemma cut_segments_rmtree:
  "cut_segments (env\<lparr>rmtree_error := r\<rparr>) n segs st = cut_segments env n segs st"
  by (induction segs arbitrary: n st)
     (simp_all add: read_cancelled_def run_ffmpeg_def split: prod.splits option.splits)

lemma process_task_rmtree:
  "process_task (env\<lparr>rmtree_error := r\<rparr>) total_tasks i t st = process_task env total_tasks i t st"
  by (simp add: process_task_def Let_def cut_segments_rmtree run_ffmpeg_def
      cong: option.case_cong prod.case_cong)

lemma task_loop_rmtree:
  "task_loop (env\<lparr>rmtree_error := r\<rparr>) total_tasks i ts st = task_loop env total_tasks i ts st"
  by (induction ts arbitrary: i st)
     (simp_all add: read_cancelled_def process_task_rmtree cong: option.case_cong prod.case_cong)

lemma signals_cleanup: "signals (cleanup env st) = signals st"
  by (simp add: cleanup_def split: option.splits)

lemma signals_run_rmtree:
  "signals (run (env\<lparr>rmtree_error := r\<rparr>) ts) = signals (run env ts)"
  by (simp add: run_def task_loop_rmtree initial_state_def signals_cleanup split: prod.splits)

lemmas run_eval = run_def initial_state_def calm_env_def five_tasks_def concat_task_def
  tag_split_task_def sample_request_def process_task_def output_format_names_def
  read_cancelled_def run_ffmpeg_def emit_def handle_exit_def cleanup_def completion_message_def
  path_join_def basename_def show_nat.simps digit_char_def Let_def

lemma dir_cut_segments:
  "temp_concat_dir (snd (cut_segments env n segs st)) = temp_concat_dir st"
  by (induction segs arbitrary: n st)
     (simp_all add: read_cancelled_def run_ffmpeg_def split: option.splits)

lemma dir_process_task:
  "temp_concat_dir st \<noteq> None \<Longrightarrow> temp_concat_dir (snd (process_task env total_tasks i t st)) \<noteq> None"
proof -
  assume a: "temp_concat_dir st \<noteq> None"
  have c: "temp_concat_dir (snd (cut_segments env 0 segs st')) \<noteq> None"
    if "temp_concat_dir st' \<noteq> None" for segs st'
    using that by (simp add: dir_cut_segments)
  show ?thesis
    using a c
    by (auto simp: process_task_def Let_def run_ffmpeg_def emit_def dir_cut_segments
        split: option.splits prod.splits dest!: arg_cong [where f = snd])
qed

lemma dir_process_concat:
  assumes "well_formed_task t" "task_type t = ''concat''"
  shows "temp_concat_dir (snd (process_task env total_tasks i t st)) \<noteq> None"
proof -
  from assms obtain segs where segs: "segments t = Some segs"
    by (auto simp: well_formed_task_def)
  have k: "output_format_key t \<in> set output_format_names"
    using assms(1) by (simp add: well_formed_task_def)
  let ?p = "path_join (base_temp_dir env) (''lossless_cutter_temp_'' @ show_nat (pid env))"
  have c: "temp_concat_dir (snd (cut_segments env 0 segs
             (st\<lparr>temp_concat_dir := Some ?p, temp_dir_exists := True\<rparr>))) = Some ?p"
    by (simp add: dir_cut_segments)
  show ?thesis
    using k assms(2) segs c
    by (auto simp: process_task_def Let_def run_ffmpeg_def emit_def
        split: option.splits prod.splits)
qed

lemma dir_task_loop:
  "temp_concat_dir st \<noteq> None \<Longrightarrow> temp_concat_dir (snd (task_loop env total_tasks i ts st)) \<noteq> None"
proof (induction ts arbitrary: i st)
  case Nil
  then show ?case by simp
next
  case (Cons t rest)
  let ?st1 = "st\<lparr>checks := Suc (checks st)\<rparr>"
  obtain x st2 where p: "process_task env total_tasks i t ?st1 = (x, st2)"
    by (cases "process_task env total_tasks i t ?st1")
  have "temp_concat_dir ?st1 \<noteq> None" using Cons.prems by simp
  from dir_process_task [OF this, of env total_tasks i t] p
  have d2: "temp_concat_dir st2 \<noteq> None" by simp
  show ?case
    using Cons.prems d2 Cons.IH [OF d2]
    by (simp add: read_cancelled_def emit_def p split: option.splits)
qed

lemma dir_handle_exit: "temp_concat_dir (handle_exit ex ts st) = temp_concat_dir st"
  by (cases ex) (auto simp: handle_exit_def emit_def split: exn.splits)

lemma dir_cleanup: "temp_concat_dir (cleanup env st) = temp_concat_dir st"
  by (simp add: cleanup_def split: option.splits)

lemma dir_run_concat_first:
  assumes "well_formed_task t" "task_type t = ''concat''" "cancel_at env \<noteq> Some 0"
  shows "temp_concat_dir (run env (t # rest)) \<noteq> None"
proof -
  define n where "n = length (t # rest)"
  let ?st1 = "(initial_state env)\<lparr>checks := Suc (checks (initial_state env))\<rparr>"
  obtain x st2 where p: "process_task env n 0 t ?st1 = (x, st2)"
    by (cases "process_task env n 0 t ?st1")
  from dir_process_concat [OF assms(1,2), of env n 0 ?st1] p
  have d2: "temp_concat_dir st2 \<noteq> None" by simp
  have nc: "\<not> (case cancel_at env of None \<Rightarrow> False | Some c \<Rightarrow> c \<le> checks (initial_state env))"
    using assms(3) by (cases "cancel_at env") (auto simp: initial_state_def)
  have tl: "temp_concat_dir (snd (task_loop env n 0 (t # rest) (initial_state env))) \<noteq> None"
    using nc d2 dir_task_loop [OF d2, of env n "0 + 1" rest]
    by (simp add: read_cancelled_def p split: option.splits)
  obtain ex stf where l: "task_loop env n 0 (t # rest) (initial_state env) = (ex, stf)"
    by (cases "task_loop env n 0 (t # rest) (initial_state env)")
  from tl have "temp_concat_dir stf \<noteq> None" unfolding l by simp
  then show ?thesis
    unfolding run_def n_def [symmetric] l by (simp add: dir_cleanup dir_handle_exit)
qed

text \<open>
  Claim C8. A concat task at the head of the list, unless the flag is already set at the
  first read, sets \<open>temp_concat_dir\<close>. Whatever the tasks and whatever happens during the
  run (completion, a failing ffmpeg run or file operation, cancellation at either kind
  of checkpoint), once a concat task has set \<open>temp_concat_dir\<close> the directory does not
  exist after the run unless its removal itself fails; a directory that exists after the run was either there before a
  run that started no concat task, or its removal failed and exactly one warning was
  printed; and a failing removal leaves the signals of the run as they are with a
  removal that succeeds.
\<close>

theorem temp_dir_removed:
  "(well_formed_task t \<and> task_type t = ''concat'' \<and> cancel_at env \<noteq> Some 0 \<longrightarrow>
      temp_concat_dir (run env (t # rest)) \<noteq> None) \<and>
   (rmtree_error env = None \<longrightarrow> temp_concat_dir (run env ts) \<noteq> None \<longrightarrow>
      \<not> temp_dir_exists (run env ts)) \<and>
   (temp_dir_exists (run env ts) \<longrightarrow>
      (temp_concat_dir (run env ts) = None \<and> dir_exists_before env) \<or>
      (\<exists>d e. temp_concat_dir (run env ts) = Some d \<and> rmtree_error env = Some e \<and>
         cleanup_warnings (run env ts)
           = [''Warning: Could not remove temp directory '' @ d @ '': '' @ e])) \<and>
   signals (run (env\<lparr>rmtree_error := r\<rparr>) ts) = signals (run env ts)"
proof -
  from run_cleanup [of env ts] obtain st where t: "tidy env st" and r: "run env ts = cleanup env st"
    by blast
  have "(rmtree_error env = None \<longrightarrow> temp_concat_dir (run env ts) \<noteq> None \<longrightarrow>
      \<not> temp_dir_exists (run env ts)) \<and>
   (temp_dir_exists (run env ts) \<longrightarrow>
      (temp_concat_dir (run env ts) = None \<and> dir_exists_before env) \<or>
      (\<exists>d e. temp_concat_dir (run env ts) = Some d \<and> rmtree_error env = Some e \<and>
         cleanup_warnings (run env ts)
           = [''Warning: Could not remove temp directory '' @ d @ '': '' @ e]))"
    using t by (auto simp: r cleanup_def tidy_def split: option.splits)
  then show ?thesis
    using dir_run_concat_first [where t = t and env = env and rest = rest]
      signals_run_rmtree [where env = env and r = r and ts = ts]
    by blast
qed

theorem temp_dir_removed_witness:
  "run (calm_env None) [concat_task] =
     \<lparr>signals = [SegmentProcessed 1 1 ''/out/clip_cleaned.mp4'', Finished ''/out/clip_cleaned.mp4''],
      temp_concat_dir = Some ''/tmp/lossless_cutter_temp_4242'', temp_dir_exists = False,
      checks = 3, invocations = 3, cleanup_warnings = []\<rparr> \<and>
   run (calm_env (Some 1)) [concat_task] =
     \<lparr>signals = [Error ''Cancelled during segment cutting for concat.''],
      temp_concat_dir = Some ''/tmp/lossless_cutter_temp_4242'', temp_dir_exists = False,
      checks = 2, invocations = 0, cleanup_warnings = []\<rparr> \<and>
   run ((calm_env None)\<lparr>ffmpeg_run := (\<lambda>n. if n = 1 then Some ''boom'' else None)\<rparr>) [concat_task] =
     \<lparr>signals = [Error ''Failed to cut segment 2: boom''],
      temp_concat_dir = Some ''/tmp/lossless_cutter_temp_4242'', temp_dir_exists = False,
      checks = 3, invocations = 2, cleanup_warnings = []\<rparr> \<and>
   run ((calm_env None)\<lparr>rmtree_error := Some ''busy''\<rparr>) [concat_task] =
     \<lparr>signals = [SegmentProcessed 1 1 ''/out/clip_cleaned.mp4'', Finished ''/out/clip_cleaned.mp4''],
      temp_concat_dir = Some ''/tmp/lossless_cutter_temp_4242'', temp_dir_exists = True,
      checks = 3, invocations = 3,
      cleanup_warnings =
        [''Warning: Could not remove temp directory /tmp/lossless_cutter_temp_4242: busy'']\<rparr>"
  using
    temp_dir_removed [where env = "calm_env None" and ts = "[concat_task]"
      and r = "Some ''busy''" and t = concat_task and rest = "[]"]
    temp_dir_removed [where env = "calm_env (Some 1)" and ts = "[concat_task]"
      and r = None and t = concat_task and rest = "[]"]
    temp_dir_removed
      [where env = "(calm_env None)\<lparr>ffmpeg_run := (\<lambda>n. if n = 1 then Some ''boom'' else None)\<rparr>"
        and ts = "[concat_task]" and r = None and t = concat_task and rest = "[]"]
  by (simp add: run_eval)

lemma cut_segments_ok:
  assumes "\<forall>n. ffmpeg_run env n = None" "cancel_at env = Some c" "checks st + length segs \<le> c"
  shows "\<exists>st'. cut_segments env n segs st = (None, st') \<and> signals st' = signals st \<and>
               checks st' = checks st + length segs"
  using assms(3)
proof (induction segs arbitrary: n st)
  case Nil
  then show ?case by simp
next
  case (Cons seg rest)
  define st2 where "st2 = st\<lparr>checks := Suc (checks st), invocations := Suc (invocations st)\<rparr>"
  have "checks st2 + length rest \<le> c" using Cons.prems by (simp add: st2_def)
  from Cons.IH [OF this, of "n + 1"] obtain st' where
    "cut_segments env (n + 1) rest st2 = (None, st')" "signals st' = signals st2"
    "checks st' = checks st2 + length rest" by blast
  moreover have "cut_segments env n (seg # rest) st = cut_segments env (n + 1) rest st2"
    using assms(1,2) Cons.prems by (simp add: read_cancelled_def run_ffmpeg_def st2_def)
  ultimately show ?case by (simp add: st2_def)
qed

lemma process_task_ok:
  assumes "\<forall>n. ffmpeg_run env n = None" "\<forall>i. makedirs_error env i = None"
    "\<forall>i. list_write_error env i = None" "cancel_at env = Some c"
    and "well_formed_task t" "checks st + checks_of_task t \<le> Suc c"
  shows "\<exists>st'. process_task env total_tasks i t st = (None, st') \<and>
               signals st' = signals st @ [SegmentProcessed (i + 1) total_tasks (output_path t)] \<and>
               Suc (checks st') = checks st + checks_of_task t"
proof (cases "task_type t = ''concat''")
  case False
  with assms show ?thesis
    by (simp add: process_task_def well_formed_task_def run_ffmpeg_def emit_def checks_of_task_def)
next
  case True
  with assms(5) obtain segs where segs: "segments t = Some segs"
    by (auto simp: well_formed_task_def)
  let ?st2 = "st\<lparr>temp_concat_dir :=
      Some (path_join (base_temp_dir env) (''lossless_cutter_temp_'' @ show_nat (pid env))),
      temp_dir_exists := True\<rparr>"
  have "checks ?st2 + length segs \<le> c" using assms(6) True segs by (simp add: checks_of_task_def)
  from cut_segments_ok [OF assms(1,4) this, of 0] obtain st3 where
    c: "cut_segments env 0 segs ?st2 = (None, st3)" and s3: "signals st3 = signals ?st2"
    and k3: "checks st3 = checks ?st2 + length segs" by blast
  show ?thesis
    using assms(1,2,3,5) True segs c s3 k3
    by (simp add: process_task_def well_formed_task_def run_ffmpeg_def emit_def checks_of_task_def
        Let_def)
qed

lemma task_loop_cancelled:
  assumes "\<forall>n. ffmpeg_run env n = None" "\<forall>i. makedirs_error env i = None"
    "\<forall>i. list_write_error env i = None" "cancel_at env = Some c"
  shows "k < length ts \<Longrightarrow> \<forall>t \<in> set (take k ts). well_formed_task t \<Longrightarrow>
         c = checks st + sum_list (map checks_of_task (take k ts)) \<Longrightarrow>
         \<exists>st'. task_loop env total_tasks i ts st = (Returned, st') \<and>
           signals st' = signals st
             @ map (\<lambda>j. SegmentProcessed (i + j + 1) total_tasks (output_path (ts ! j))) [0..<k]
             @ [Finished ''Operation cancelled.'']"
proof (induction k arbitrary: ts i st)
  case 0
  then obtain t rest where ts: "ts = t # rest" by (cases ts) auto
  show ?case using 0 assms(4) by (simp add: ts read_cancelled_def emit_def)
next
  case (Suc k)
  then obtain t rest where ts: "ts = t # rest" by (cases ts) auto
  define st1 where "st1 = st\<lparr>checks := Suc (checks st)\<rparr>"
  have wf: "well_formed_task t" and wfr: "\<forall>t \<in> set (take k rest). well_formed_task t"
    using Suc.prems(2) ts by simp_all
  have ceq: "c = checks st + checks_of_task t + sum_list (map checks_of_task (take k rest))"
    using Suc.prems(3) ts by simp
  have pos: "0 < checks_of_task t" by (simp add: checks_of_task_def)
  have nc: "\<not> c \<le> checks st" using ceq pos by simp
  have "checks st1 + checks_of_task t \<le> Suc c" using ceq by (simp add: st1_def)
  from process_task_ok [OF assms wf this, of total_tasks i] obtain st2 where
    p: "process_task env total_tasks i t st1 = (None, st2)"
    and s2: "signals st2 = signals st1 @ [SegmentProcessed (i + 1) total_tasks (output_path t)]"
    and k2: "Suc (checks st2) = checks st1 + checks_of_task t" by blast
  have c2: "c = checks st2 + sum_list (map checks_of_task (take k rest))"
    using ceq k2 by (simp add: st1_def)
  have kl: "k < length rest" using Suc.prems(1) ts by simp
  from Suc.IH [OF kl wfr c2, of "i + 1"] obtain st' where
    l: "task_loop env total_tasks (i + 1) rest st2 = (Returned, st')"
    and s': "signals st' = signals st2
             @ map (\<lambda>j. SegmentProcessed (i + 1 + j + 1) total_tasks (output_path (rest ! j))) [0..<k]
             @ [Finished ''Operation cancelled.'']" by blast
  have step: "task_loop env total_tasks i ts st = task_loop env total_tasks (i + 1) rest st2"
    using nc p assms(4) by (simp add: ts read_cancelled_def st1_def [symmetric])
  have m: "map (\<lambda>j. SegmentProcessed (i + j + 1) total_tasks (output_path (ts ! j))) [0..<Suc k]
         = SegmentProcessed (i + 1) total_tasks (output_path t)
           # map (\<lambda>j. SegmentProcessed (i + 1 + j + 1) total_tasks (output_path (rest ! j))) [0..<k]"
    unfolding ts by (simp add: upt_rec [of 0 "Suc k"] map_Suc_upt [symmetric] del: upt_Suc)
  show ?case
    unfolding step l m using s' s2 by (simp add: st1_def)
qed

lemma signals_run_cancelled:
  assumes "\<forall>n. ffmpeg_run env n = None" "\<forall>i. makedirs_error env i = None"
    "\<forall>i. list_write_error env i = None"
    and "k < length ts" "\<forall>t \<in> set (take k ts). well_formed_task t"
    and "cancel_at env = Some (sum_list (map checks_of_task (take k ts)))"
  shows "signals (run env ts) =
           map (\<lambda>j. SegmentProcessed (j + 1) (length ts) (output_path (ts ! j))) [0..<k]
           @ [Finished ''Operation cancelled.'']"
proof -
  have "sum_list (map checks_of_task (take k ts))
          = checks (initial_state env) + sum_list (map checks_of_task (take k ts))"
    by (simp add: initial_state_def)
  from task_loop_cancelled [OF assms(1,2,3,6) assms(4,5) this, of "length ts" 0]
  obtain st' where "task_loop env (length ts) 0 ts (initial_state env) = (Returned, st')"
    "signals st' = signals (initial_state env)
       @ map (\<lambda>j. SegmentProcessed (0 + j + 1) (length ts) (output_path (ts ! j))) [0..<k]
       @ [Finished ''Operation cancelled.'']" by blast
  then show ?thesis
    by (simp add: run_def handle_exit_def signals_cleanup initial_state_def)
qed

lemma five_cancel_2:
  "signals (run (calm_env (Some 2)) five_tasks) =
     [SegmentProcessed 1 5 ''/out/clip_tag_split_1.mp4'',
      SegmentProcessed 2 5 ''/out/clip_tag_split_2.mp4'',
      Finished ''Operation cancelled.'']"
  by (simp add: run_eval)

lemma five_cancel_0:
  "signals (run (calm_env (Some 0)) five_tasks) = [Finished ''Operation cancelled.'']"
  by (simp add: run_eval)

lemma five_done:
  "signals (run (calm_env None) five_tasks) =
     [SegmentProcessed 1 5 ''/out/clip_tag_split_1.mp4'',
      SegmentProcessed 2 5 ''/out/clip_tag_split_2.mp4'',
      SegmentProcessed 3 5 ''/out/clip_tag_split_3.mp4'',
      SegmentProcessed 4 5 ''/out/clip_tag_split_4.mp4'',
      SegmentProcessed 5 5 ''/out/clip_tag_split_5.mp4'',
      Finished ''Successfully processed 5 segment(s).'']"
  by (simp add: run_eval)

text \<open>
  Claim C3, amended. When nothing fails and the cancellation flag is first seen set at
  the top of the loop before task \<open>k + 1\<close>, the run emits \<open>segment_processed\<close> for the
  \<open>k\<close> tasks done and then ends with the signal \<open>finished\<close> carrying the text
  "Operation cancelled.": the signal that also reports completion, not the \<open>error\<close>
  signal, and with the same text for every \<open>k\<close>. The number of completed tasks is the
  number of \<open>segment_processed\<close> signals before it. For five tasks cancelled between the
  second and the third the signals are the two \<open>segment_processed\<close> and that \<open>finished\<close>.
\<close>

theorem cancellation_at_loop_top:
  assumes "\<forall>n. ffmpeg_run env n = None" and "\<forall>i. makedirs_error env i = None"
    and "\<forall>i. list_write_error env i = None"
    and "k < length ts" and "\<forall>t \<in> set (take k ts). well_formed_task t"
    and "cancel_at env = Some (sum_list (map checks_of_task (take k ts)))"
  shows "signals (run env ts) =
           map (\<lambda>j. SegmentProcessed (j + 1) (length ts) (output_path (ts ! j))) [0..<k]
           @ [Finished ''Operation cancelled.''] \<and>
         signals (run (calm_env (Some 2)) five_tasks) =
           [SegmentProcessed 1 5 ''/out/clip_tag_split_1.mp4'',
            SegmentProcessed 2 5 ''/out/clip_tag_split_2.mp4'',
            Finished ''Operation cancelled.'']"
  using signals_run_cancelled [OF assms] five_cancel_2 by simp

theorem cancellation_at_loop_top_witness:
  "2 < length five_tasks \<and> list_all well_formed_task (take 2 five_tasks) \<and>
   cancel_at (calm_env (Some 2)) = Some (sum_list (map checks_of_task (take 2 five_tasks))) \<and>
   signals (run (calm_env (Some 2)) five_tasks) =
     map (\<lambda>j. SegmentProcessed (j + 1) (length five_tasks) (output_path (five_tasks ! j))) [0..<2]
     @ [Finished ''Operation cancelled.'']"
proof -
  have a: "\<forall>n. ffmpeg_run (calm_env (Some 2)) n = None"
    and b: "\<forall>i. makedirs_error (calm_env (Some 2)) i = None"
    and c: "\<forall>i. list_write_error (calm_env (Some 2)) i = None"
    by (simp_all add: calm_env_def)
  have k: "2 < length five_tasks" by (simp add: five_tasks_def)
  have w: "\<forall>t \<in> set (take 2 five_tasks). well_formed_task t"
    by (simp add: five_tasks_def well_formed_task_def tag_split_task_def sample_request_def
        output_format_names_def)
  have f: "cancel_at (calm_env (Some 2)) = Some (sum_list (map checks_of_task (take 2 five_tasks)))"
    by (simp add: calm_env_def five_tasks_def checks_of_task_def tag_split_task_def)
  note r = cancellation_at_loop_top [OF a b c k w f, THEN conjunct1]
  from k w f r show ?thesis by (simp add: list_all_iff)
qed

text \<open>
  The claim as written has a cancelled state of its own whose report carries the count.
  Five tasks cancelled after two and the same five cancelled before the first end with
  the same signal, and it is the signal a completed run ends with.
\<close>

theorem cancellation_report_counterexample:
  "signals (run (calm_env (Some 2)) five_tasks) =
     [SegmentProcessed 1 5 ''/out/clip_tag_split_1.mp4'',
      SegmentProcessed 2 5 ''/out/clip_tag_split_2.mp4'',
      Finished ''Operation cancelled.''] \<and>
   signals (run (calm_env (Some 0)) five_tasks) = [Finished ''Operation cancelled.''] \<and>
   signals (run (calm_env None) five_tasks) =
     [SegmentProcessed 1 5 ''/out/clip_tag_split_1.mp4'',
      SegmentProcessed 2 5 ''/out/clip_tag_split_2.mp4'',
      SegmentProcessed 3 5 ''/out/clip_tag_split_3.mp4'',
      SegmentProcessed 4 5 ''/out/clip_tag_split_4.mp4'',
      SegmentProcessed 5 5 ''/out/clip_tag_split_5.mp4'',
      Finished ''Successfully processed 5 segment(s).'']"
  using five_cancel_2 five_cancel_0 five_done by simp

end
